theory Spec2Isabelle
  imports Main "HOL-Library.Sublist"
begin

section \<open>Strings\<close>

text \<open>
  A Python \<^verbatim>\<open>str\<close> is modelled as a \<^typ>\<open>string\<close> whose characters are the code
  points U+0000 to U+00FF. \<^verbatim>\<open>s.startswith(p)\<close> is \<^term>\<open>prefix p s\<close> and
  \<^verbatim>\<open>s.endswith(p)\<close> is \<^term>\<open>suffix p s\<close>.
\<close>

text \<open>\<^verbatim>\<open>s.rstrip('/')\<close>: every trailing slash goes.\<close>

definition rstrip :: "char \<Rightarrow> string \<Rightarrow> string" where
  "rstrip c s = rev (dropWhile (\<lambda>x. x = c) (rev s))"

text \<open>\<^verbatim>\<open>s.split(sep)\<close> for a one-character separator; the result is never empty.\<close>

fun split :: "char \<Rightarrow> string \<Rightarrow> string list" where
  "split c [] = [[]]"
| "split c (x # xs) =
     (if x = c then [] # split c xs
      else (case split c xs of [] \<Rightarrow> [[x]] | w # ws \<Rightarrow> (x # w) # ws))"

text \<open>\<^verbatim>\<open>s.split(sep, n)\<close>: at most \<open>n\<close> splits, the rest of the string is the last item.\<close>

fun split_max :: "char \<Rightarrow> nat \<Rightarrow> string \<Rightarrow> string list" where
  "split_max c 0 s = [s]"
| "split_max c (Suc n) [] = [[]]"
| "split_max c (Suc n) (x # xs) =
     (if x = c then [] # split_max c n xs
      else (case split_max c (Suc n) xs of [] \<Rightarrow> [[x]] | w # ws \<Rightarrow> (x # w) # ws))"

text \<open>\<^verbatim>\<open>web.listget(l, n, default)\<close> and \<^verbatim>\<open>web.lstrips(text, remove)\<close> of web.py.\<close>

definition listget :: "'a list \<Rightarrow> nat \<Rightarrow> 'a \<Rightarrow> 'a" where
  "listget l n d = (if n < length l then l ! n else d)"

definition lstrips :: "string \<Rightarrow> string \<Rightarrow> string" where
  "lstrips s remove = (if prefix remove s then drop (length remove) s else s)"

section \<open>The object store\<close>

text \<open>
  A record of the store has a key, the key of its type and string properties
  (\<^verbatim>\<open>thing.key\<close>, \<^verbatim>\<open>thing.type.key\<close>, \<^verbatim>\<open>thing.get(name)\<close>). The site is
  read only: \<^verbatim>\<open>site.get(key)\<close> is a partial function. The functions that query it
  also return the keys they asked for, in the order of the calls.
\<close>

record thing =
  thing_key :: string
  type_key :: string
  props :: "string \<Rightarrow> string option"

type_synonym site = "string \<Rightarrow> thing option"

subsection \<open>\<^verbatim>\<open>_get_object\<close>\<close>

text \<open>
  One step \<^verbatim>\<open>if obj is None and cond: key = new; obj = site.get(key)\<close> on the
  triple of \<^verbatim>\<open>obj\<close>, \<^verbatim>\<open>key\<close> and the keys requested so far. In the three legacy
  steps the source writes \<^verbatim>\<open>obj = key and site.get(key)\<close>; the new key is never
  empty there, so this is \<^verbatim>\<open>site.get(key)\<close>.
\<close>

definition retry ::
  "site \<Rightarrow> (string \<Rightarrow> bool) \<Rightarrow> (string \<Rightarrow> string) \<Rightarrow>
   thing option \<times> string \<times> string list \<Rightarrow> thing option \<times> string \<times> string list" where
  "retry st cond new = (\<lambda>(obj, k, asked).
     if obj = None \<and> cond k then (st (new k), new k, asked @ [new k]) else (obj, k, asked))"

definition get_object :: "site \<Rightarrow> string \<Rightarrow> thing option \<times> string list" where
  "get_object st key0 =
    (let s = (st key0, key0, [key0]);
         s = retry st (prefix ''/a/'') (\<lambda>k. ''/authors/'' @ drop (length ''/a/'') k) s;
         s = retry st (prefix ''/b/'') (\<lambda>k. ''/books/'' @ drop (length ''/b/'') k) s;
         s = retry st (prefix ''/user/'') (\<lambda>k. ''/people/'' @ drop (length ''/user/'') k) s;
         basename = last (split (CHR ''/'') (fst (snd s)));
         s = retry st (\<lambda>_. prefix ''ia:'' basename) (\<lambda>_. ''/books/'' @ basename) s;
         s = retry st (\<lambda>_. prefix ''OL'' basename \<and> suffix ''W'' basename)
               (\<lambda>_. ''/works/'' @ basename) s;
         s = retry st (\<lambda>_. prefix ''OL'' basename \<and> suffix ''M'' basename)
               (\<lambda>_. ''/books/'' @ basename) s;
         s = retry st (\<lambda>_. prefix ''OL'' basename \<and> suffix ''A'' basename)
               (\<lambda>_. ''/authors/'' @ basename) s
     in (fst s, snd (snd s)))"

subsection \<open>The fallback chain as a list of candidate keys\<close>

text \<open>
  The first hit among candidate keys, with the keys requested up to and including it.
\<close>

fun first_hit :: "site \<Rightarrow> string list \<Rightarrow> thing option \<times> string list" where
  "first_hit st [] = (None, [])"
| "first_hit st (k # ks) =
     (case st k of
        Some t \<Rightarrow> (Some t, [k])
      | None \<Rightarrow> (case first_hit st ks of (r, asked) \<Rightarrow> (r, k # asked)))"

definition basename_of :: "string \<Rightarrow> string" where
  "basename_of k = last (split (CHR ''/'') k)"

definition legacy_candidates :: "string \<Rightarrow> string list" where
  "legacy_candidates k =
     (if prefix ''/a/'' k then [''/authors/'' @ drop (length ''/a/'') k]
      else if prefix ''/b/'' k then [''/books/'' @ drop (length ''/b/'') k]
      else if prefix ''/user/'' k then [''/people/'' @ drop (length ''/user/'') k]
      else [])"

definition is_digit :: "char \<Rightarrow> bool" where
  "is_digit c \<longleftrightarrow> 48 \<le> (of_char c :: nat) \<and> (of_char c :: nat) \<le> 57"

text \<open>The final segment is \<^verbatim>\<open>OL<digits>\<close> followed by the letter \<open>c\<close>.\<close>

definition is_olid :: "char \<Rightarrow> string \<Rightarrow> bool" where
  "is_olid c b \<longleftrightarrow>
     prefix ''OL'' b \<and> 4 \<le> length b \<and> last b = c \<and> list_all is_digit (butlast (drop 2 b))"

definition basename_candidates :: "string \<Rightarrow> string list" where
  "basename_candidates b =
      (if prefix ''ia:'' b then [''/books/'' @ b] else [])
      @ (if prefix ''OL'' b \<and> suffix ''W'' b then [''/works/'' @ b] else [])
      @ (if prefix ''OL'' b \<and> suffix ''M'' b then [''/books/'' @ b] else [])
      @ (if prefix ''OL'' b \<and> suffix ''A'' b then [''/authors/'' @ b] else [])"

text \<open>
  The candidates as the specification words them: the identifier rewrites apply to a
  final segment of the form \<^verbatim>\<open>OL<digits>W\<close>, \<^verbatim>\<open>OL<digits>M\<close>, \<^verbatim>\<open>OL<digits>A\<close>.
\<close>

definition spec_candidates :: "string \<Rightarrow> string list" where
  "spec_candidates k =
     (let b = basename_of k in
      [k] @ legacy_candidates k
      @ (if prefix ''ia:'' b then [''/books/'' @ b] else [])
      @ (if is_olid (CHR ''W'') b then [''/works/'' @ b] else [])
      @ (if is_olid (CHR ''M'') b then [''/books/'' @ b] else [])
      @ (if is_olid (CHR ''A'') b then [''/authors/'' @ b] else []))"

text \<open>
  The candidates of the code: the identifier rewrites apply to every final segment that
  starts with \<^verbatim>\<open>OL\<close> and ends with the letter.
\<close>

definition fallback_candidates :: "string \<Rightarrow> string list" where
  "fallback_candidates k =
     (let b = basename_of k in
      [k] @ legacy_candidates k
      @ (if prefix ''ia:'' b then [''/books/'' @ b] else [])
      @ (if prefix ''OL'' b \<and> suffix ''W'' b then [''/works/'' @ b] else [])
      @ (if prefix ''OL'' b \<and> suffix ''M'' b then [''/books/'' @ b] else [])
      @ (if prefix ''OL'' b \<and> suffix ''A'' b then [''/authors/'' @ b] else []))"

text \<open>The two phases of \<^verbatim>\<open>_get_object\<close>, named for the proofs.\<close>

definition legacy_phase ::
  "site \<Rightarrow> thing option \<times> string \<times> string list \<Rightarrow> thing option \<times> string \<times> string list" where
  "legacy_phase st s =
     retry st (prefix ''/user/'') (\<lambda>k. ''/people/'' @ drop (length ''/user/'') k)
      (retry st (prefix ''/b/'') (\<lambda>k. ''/books/'' @ drop (length ''/b/'') k)
       (retry st (prefix ''/a/'') (\<lambda>k. ''/authors/'' @ drop (length ''/a/'') k) s))"

definition basename_phase ::
  "site \<Rightarrow> string \<Rightarrow> thing option \<times> string \<times> string list \<Rightarrow>
   thing option \<times> string \<times> string list" where
  "basename_phase st b s =
     retry st (\<lambda>_. prefix ''OL'' b \<and> suffix ''A'' b) (\<lambda>_. ''/authors/'' @ b)
      (retry st (\<lambda>_. prefix ''OL'' b \<and> suffix ''M'' b) (\<lambda>_. ''/books/'' @ b)
       (retry st (\<lambda>_. prefix ''OL'' b \<and> suffix ''W'' b) (\<lambda>_. ''/works/'' @ b)
        (retry st (\<lambda>_. prefix ''ia:'' b) (\<lambda>_. ''/books/'' @ b) s)))"

section \<open>The rules and the path matcher\<close>

subsection \<open>Regular expressions\<close>

text \<open>
  The five patterns are built from literals, \<^verbatim>\<open>c+\<close> for a character class \<open>c\<close>
  (greedy) and concatenation. \<open>ends r s\<close> lists the lengths of the prefixes of \<open>s\<close>
  that \<open>r\<close> matches, in the order in which Python's backtracking matcher finds them:
  the longest repetition first. \<^verbatim>\<open>re.compile('^' + pat).match(s)\<close> takes the first,
  and \<^verbatim>\<open>m.group()\<close> is that prefix.
\<close>

datatype re = Lit string | Plus "char \<Rightarrow> bool" | Seq re re

fun plus_ends :: "(char \<Rightarrow> bool) \<Rightarrow> string \<Rightarrow> nat list" where
  "plus_ends P [] = []"
| "plus_ends P (c # cs) = (if P c then map Suc (plus_ends P cs) @ [1] else [])"

fun ends :: "re \<Rightarrow> string \<Rightarrow> nat list" where
  "ends (Lit l) s = (if prefix l s then [length l] else [])"
| "ends (Plus P) s = plus_ends P s"
| "ends (Seq a b) s = concat (map (\<lambda>n. map ((+) n) (ends b (drop n s))) (ends a s))"

definition re_match :: "re \<Rightarrow> string \<Rightarrow> string option" where
  "re_match r s = (case ends r s of [] \<Rightarrow> None | n # _ \<Rightarrow> Some (take n s))"

text \<open>
  The character classes, on the code points up to U+00FF: \<^verbatim>\<open>\d\<close> is \<open>is_digit\<close>,
  \<^verbatim>\<open>\w\<close> (letters, digits and other numeric characters of Unicode, and the
  underscore), \<^verbatim>\<open>[a-zA-Z0-9_\.-]\<close> and \<^verbatim>\<open>[/\w\-]\<close>.
\<close>

definition is_word :: "char \<Rightarrow> bool" where
  "is_word c \<longleftrightarrow>
     (let n = (of_char c :: nat) in
      (48 \<le> n \<and> n \<le> 57) \<or> (65 \<le> n \<and> n \<le> 90) \<or> n = 95 \<or> (97 \<le> n \<and> n \<le> 122)
      \<or> n = 170 \<or> (178 \<le> n \<and> n \<le> 179) \<or> n = 181 \<or> (185 \<le> n \<and> n \<le> 186)
      \<or> (188 \<le> n \<and> n \<le> 190) \<or> (192 \<le> n \<and> n \<le> 214) \<or> (216 \<le> n \<and> n \<le> 246)
      \<or> 248 \<le> n)"

definition is_ia_char :: "char \<Rightarrow> bool" where
  "is_ia_char c \<longleftrightarrow>
     (let n = (of_char c :: nat) in
      (97 \<le> n \<and> n \<le> 122) \<or> (65 \<le> n \<and> n \<le> 90) \<or> (48 \<le> n \<and> n \<le> 57)
      \<or> c = CHR ''_'' \<or> c = CHR ''.'' \<or> c = CHR ''-'')"

definition is_list_char :: "char \<Rightarrow> bool" where
  "is_list_char c \<longleftrightarrow> c = CHR ''/'' \<or> is_word c \<or> c = CHR ''-''"

subsection \<open>\<^verbatim>\<open>ReadableUrlProcessor.patterns\<close>\<close>

type_synonym rule = "re \<times> string \<times> string \<times> string"

definition olid_pattern :: "(char \<Rightarrow> bool) \<Rightarrow> string \<Rightarrow> re" where
  "olid_pattern cls letter =
     Seq (Lit ''/'') (Seq (Plus cls) (Seq (Lit ''/OL'') (Seq (Plus is_digit) (Lit letter))))"

definition patterns :: "rule list" where
  "patterns =
    [(olid_pattern is_word ''M'', ''/type/edition'', ''title'', ''untitled''),
     (Seq (Lit ''/'') (Seq (Plus is_word) (Seq (Lit ''/ia:'') (Plus is_ia_char))),
        ''/type/edition'', ''title'', ''untitled''),
     (olid_pattern is_word ''A'', ''/type/author'', ''name'', ''noname''),
     (olid_pattern is_word ''W'', ''/type/work'', ''title'', ''untitled''),
     (olid_pattern is_list_char ''L'', ''/type/list'', ''name'', ''unnamed'')]"

subsection \<open>The inner function \<^verbatim>\<open>match\<close> of \<^verbatim>\<open>get_readable_path\<close>\<close>

text \<open>The six values of a match; no match is \<^term>\<open>None\<close> (six times \<^verbatim>\<open>None\<close>).\<close>

record matched =
  m_type :: string
  m_property :: string
  m_default :: string
  m_prefix :: string
  m_middle :: string
  m_suffix :: string

fun match :: "rule list \<Rightarrow> string \<Rightarrow> matched option" where
  "match [] path = None"
| "match ((pat, ty, property, default_title) # rest) path =
     (case re_match pat path of
        None \<Rightarrow> match rest path
      | Some pre \<Rightarrow>
          (let extra = lstrips path pre;
               tokens = split_max (CHR ''/'') 2 extra;
               middle = listget tokens 1 [];
               suffix = listget tokens 2 [];
               suffix = (if suffix \<noteq> [] then CHR ''/'' # suffix else suffix)
           in Some \<lparr>m_type = ty, m_property = property, m_default = default_title,
                     m_prefix = pre, m_middle = middle, m_suffix = suffix\<rparr>))"

subsection \<open>Shapes of patterns\<close>

text \<open>A pattern whose matches cannot end with a slash: its last item is a literal that
  ends with another character, or a repetition of a class without the slash.\<close>

fun last_not_slash :: "re \<Rightarrow> bool" where
  "last_not_slash (Lit l) \<longleftrightarrow> l \<noteq> [] \<and> last l \<noteq> CHR ''/''"
| "last_not_slash (Plus P) \<longleftrightarrow> \<not> P (CHR ''/'')"
| "last_not_slash (Seq a b) \<longleftrightarrow> last_not_slash b"

section \<open>Resolution\<close>

subsection \<open>Library functions\<close>

text \<open>\<^verbatim>\<open>s.strip()\<close>: the white space of Unicode up to U+00FF goes from both ends.\<close>

definition is_space :: "char \<Rightarrow> bool" where
  "is_space c \<longleftrightarrow>
     (let n = (of_char c :: nat) in (9 \<le> n \<and> n \<le> 13) \<or> (28 \<le> n \<and> n \<le> 32) \<or> n = 133 \<or> n = 160)"

definition strip :: "string \<Rightarrow> string" where
  "strip s = rev (dropWhile is_space (rev (dropWhile is_space s)))"

text \<open>
  \<^verbatim>\<open>urllib.parse.quote(s, safe)\<close>: letters, digits and \<^verbatim>\<open>_.-~\<close> of ASCII and the
  characters of \<open>safe\<close> stay; every other character becomes \<^verbatim>\<open>%XX\<close> for each byte of
  its UTF-8 encoding (one byte below U+0080, two bytes from there to U+00FF).
\<close>

definition always_safe :: "char \<Rightarrow> bool" where
  "always_safe c \<longleftrightarrow>
     (let n = (of_char c :: nat) in
      (65 \<le> n \<and> n \<le> 90) \<or> (97 \<le> n \<and> n \<le> 122) \<or> (48 \<le> n \<and> n \<le> 57)
      \<or> c = CHR ''_'' \<or> c = CHR ''.'' \<or> c = CHR ''-'' \<or> c = CHR ''~'')"

definition hex_byte :: "nat \<Rightarrow> string" where
  "hex_byte b = [CHR ''%'', ''0123456789ABCDEF'' ! (b div 16), ''0123456789ABCDEF'' ! (b mod 16)]"

definition utf8 :: "char \<Rightarrow> nat list" where
  "utf8 c = (let n = (of_char c :: nat) in if n < 128 then [n] else [192 + n div 64, 128 + n mod 64])"

definition quote_char :: "string \<Rightarrow> char \<Rightarrow> string" where
  "quote_char safe c = (if always_safe c \<or> c \<in> set safe then [c] else concat (map hex_byte (utf8 c)))"

definition quote :: "string \<Rightarrow> string \<Rightarrow> string" where
  "quote safe s = concat (map (quote_char safe) s)"

text \<open>\<^verbatim>\<open>urllib.parse.quote_plus(s)\<close>, with its default \<^verbatim>\<open>safe=''\<close>.\<close>

definition quote_plus :: "string \<Rightarrow> string" where
  "quote_plus s =
     (if CHR '' '' \<notin> set s then quote [] s
      else map (\<lambda>c. if c = CHR '' '' then CHR ''+'' else c) (quote '' '' s))"

text \<open>
  \<^verbatim>\<open>os.path.splitext(p)\<close> of posixpath: the extension starts at the last dot, if that
  dot comes after the last slash and after a character of the last segment that is not
  a dot. \<open>rfind\<close> is \<^verbatim>\<open>str.rfind\<close>, with \<open>-1\<close> for no occurrence.
\<close>

definition rfind :: "char \<Rightarrow> string \<Rightarrow> int" where
  "rfind c s = int (length s) - 1 - int (length (takeWhile (\<lambda>x. x \<noteq> c) (rev s)))"

definition splitext :: "string \<Rightarrow> string \<times> string" where
  "splitext p =
     (let sepIndex = rfind (CHR ''/'') p; dotIndex = rfind (CHR ''.'') p in
      if dotIndex > sepIndex
         \<and> list_ex (\<lambda>c. c \<noteq> CHR ''.'') (take (nat (dotIndex - (sepIndex + 1))) (drop (nat (sepIndex + 1)) p))
      then (take (nat dotIndex) p, drop (nat dotIndex) p)
      else (p, []))"

subsection \<open>The collaborators\<close>

text \<open>
  \<^verbatim>\<open>openlibrary.core.helpers.urlsafe\<close>, the exclusion policy \<^verbatim>\<open>is_exclusion\<close> (imported
  from \<^verbatim>\<open>booklending_utils\<close>, and constantly false without it) and the check of a
  bracketed host in \<^verbatim>\<open>urllib.parse.urlsplit\<close> (which asks the \<^verbatim>\<open>ipaddress\<close> module)
  are not part of this file: they are parameters of the model.
\<close>

record env =
  urlsafe :: "string \<Rightarrow> string"
  is_exclusion :: "thing option \<Rightarrow> bool"
  bracketed_host_ok :: "string \<Rightarrow> bool"

subsection \<open>\<^verbatim>\<open>get_readable_path\<close>\<close>

text \<open>
  The result carries the pair \<^verbatim>\<open>(real_path, readable_path)\<close>, whether the call has
  executed \<^verbatim>\<open>web.ctx.exclude = True\<close>, and the keys it requested from the site.
  \<^verbatim>\<open>web.safeunicode\<close> is the identity on \<^verbatim>\<open>str\<close>. A record of the store is truthy.
\<close>

record resolution =
  paths :: "string \<times> string"
  excluded :: bool
  requested :: "string list"

definition is_structured :: "string \<Rightarrow> bool" where
  "is_structured path \<longleftrightarrow> suffix ''.json'' path \<or> suffix ''.rdf'' path \<or> suffix ''.yml'' path"

definition slug :: "env \<Rightarrow> matched \<Rightarrow> thing \<Rightarrow> string" where
  "slug e m t =
     (let title = (case props t (m_property m) of
                     None \<Rightarrow> m_default m
                   | Some v \<Rightarrow> if v = [] then m_default m else v)
      in quote_plus (urlsafe e (strip title)))"

definition get_readable_path ::
  "env \<Rightarrow> site \<Rightarrow> string \<Rightarrow> rule list \<Rightarrow> string option \<Rightarrow> resolution" where
  "get_readable_path e st path pats encoding =
     (case match pats path of
        None \<Rightarrow> \<lparr>paths = (path, path), excluded = False, requested = []\<rparr>
      | Some m \<Rightarrow>
          if encoding \<noteq> None \<or> is_structured path then
            (let (key, ext) = splitext path;
                 (thing, asked) = get_object st key;
                 path = (case thing of None \<Rightarrow> path | Some t \<Rightarrow> thing_key t @ ext)
             in \<lparr>paths = (path, path), excluded = False, requested = asked\<rparr>)
          else
            (let (thing, asked) = get_object st (m_prefix m);
                 pre = (case thing of None \<Rightarrow> m_prefix m | Some t \<Rightarrow> thing_key t);
                 middle = (case thing of
                             None \<Rightarrow> []
                           | Some t \<Rightarrow> if type_key t = m_type m then CHR ''/'' # slug e m t else [])
             in \<lparr>paths = (pre @ m_suffix m, pre @ middle @ m_suffix m),
                  excluded = is_exclusion e thing, requested = asked\<rparr>))"

section \<open>\<^verbatim>\<open>encode_url_path\<close>\<close>

subsection \<open>\<^verbatim>\<open>urllib.parse.urlparse\<close> and \<^verbatim>\<open>geturl\<close>, as in CPython 3.11\<close>

datatype error = ValueError

record parse_result =
  scheme :: string
  netloc :: string
  url_path :: string
  params :: string
  query :: string
  fragment :: string

text \<open>\<^verbatim>\<open>a, b = s.split(c, 1)\<close> for a string that contains \<open>c\<close>.\<close>

definition split_once :: "char \<Rightarrow> string \<Rightarrow> string \<times> string" where
  "split_once c s = (takeWhile (\<lambda>x. x \<noteq> c) s, drop 1 (dropWhile (\<lambda>x. x \<noteq> c) s))"

definition is_ascii_alpha :: "char \<Rightarrow> bool" where
  "is_ascii_alpha c \<longleftrightarrow>
     (let n = (of_char c :: nat) in (65 \<le> n \<and> n \<le> 90) \<or> (97 \<le> n \<and> n \<le> 122))"

definition scheme_char :: "char \<Rightarrow> bool" where
  "scheme_char c \<longleftrightarrow>
     is_ascii_alpha c \<or> is_digit c \<or> c = CHR ''+'' \<or> c = CHR ''-'' \<or> c = CHR ''.''"

definition lower :: "char \<Rightarrow> char" where
  "lower c = (let n = (of_char c :: nat) in if 65 \<le> n \<and> n \<le> 90 then char_of (n + 32) else c)"

definition uses_netloc :: "string list" where
  "uses_netloc = ['''', ''ftp'', ''http'', ''gopher'', ''nntp'', ''telnet'', ''imap'', ''wais'',
     ''file'', ''mms'', ''https'', ''shttp'', ''snews'', ''prospero'', ''rtsp'', ''rtsps'',
     ''rtspu'', ''rsync'', ''svn'', ''svn+ssh'', ''sftp'', ''nfs'', ''git'', ''git+ssh'',
     ''ws'', ''wss'']"

definition uses_params :: "string list" where
  "uses_params = ['''', ''ftp'', ''hdl'', ''prospero'', ''http'', ''imap'', ''https'', ''shttp'',
     ''rtsp'', ''rtsps'', ''rtspu'', ''sip'', ''sips'', ''mms'', ''sftp'', ''tel'']"

text \<open>
  \<^verbatim>\<open>urlsplit\<close>: leading control characters and spaces go, then every tab, carriage
  return and line feed; a scheme, a network location after \<^verbatim>\<open>//\<close>, the fragment and
  the query are split off in this order. A network location with one bracket only, or
  with a bracketed host that the check refuses, raises \<^verbatim>\<open>ValueError\<close>. The check of
  the network location under NFKC normalisation never fails up to U+00FF.
\<close>

definition urlsplit :: "env \<Rightarrow> string \<Rightarrow> error + (string \<times> string \<times> string \<times> string \<times> string)" where
  "urlsplit e url0 =
     (let url = dropWhile (\<lambda>c. (of_char c :: nat) \<le> 32) url0;
          url = filter (\<lambda>c. (of_char c :: nat) \<notin> {9, 10, 13}) url;
          head = takeWhile (\<lambda>c. c \<noteq> CHR '':'') url;
          (sch, url) =
            (if CHR '':'' \<in> set url \<and> head \<noteq> [] \<and> is_ascii_alpha (hd url) \<and> list_all scheme_char head
             then (map lower head, drop (length head + 1) url)
             else ([], url));
          (net, url) =
            (if take 2 url = ''//''
             then (takeWhile (\<lambda>c. c \<notin> set ''/?#'') (drop 2 url),
                   dropWhile (\<lambda>c. c \<notin> set ''/?#'') (drop 2 url))
             else ([], url));
          has_open = CHR ''['' \<in> set net;
          has_close = CHR '']'' \<in> set net
      in if has_open \<noteq> has_close then Inl ValueError
         else if has_open \<and> has_close
                 \<and> \<not> bracketed_host_ok e
                      (fst (split_once (CHR '']'') (snd (split_once (CHR ''['') net))))
         then Inl ValueError
         else
           (let (url, frag) = (if CHR ''#'' \<in> set url then split_once (CHR ''#'') url else (url, []));
                (url, qry) = (if CHR ''?'' \<in> set url then split_once (CHR ''?'') url else (url, []))
            in Inr (sch, net, url, qry, frag)))"

text \<open>\<^verbatim>\<open>_splitparams\<close>: the parameters start at the first semicolon of the last segment.\<close>

definition splitparams :: "string \<Rightarrow> string \<times> string" where
  "splitparams url =
     (if CHR ''/'' \<in> set url then
        (let k = nat (rfind (CHR ''/'') url); seg = drop k url in
         if CHR '';'' \<in> set seg
         then (take k url @ fst (split_once (CHR '';'') seg), snd (split_once (CHR '';'') seg))
         else (url, []))
      else split_once (CHR '';'') url)"

definition urlparse :: "env \<Rightarrow> string \<Rightarrow> error + parse_result" where
  "urlparse e url0 =
     (case urlsplit e url0 of
        Inl err \<Rightarrow> Inl err
      | Inr (sch, net, url, qry, frag) \<Rightarrow>
          (let (url, pars) =
                 (if sch \<in> set uses_params \<and> CHR '';'' \<in> set url then splitparams url else (url, []))
           in Inr \<lparr>scheme = sch, netloc = net, url_path = url, params = pars,
                    query = qry, fragment = frag\<rparr>))"

text \<open>\<^verbatim>\<open>result.geturl()\<close>, which is \<^verbatim>\<open>urlunparse(result)\<close>.\<close>

definition geturl :: "parse_result \<Rightarrow> string" where
  "geturl r =
     (let url = (if params r \<noteq> [] then url_path r @ '';'' @ params r else url_path r);
          url = (if netloc r \<noteq> [] \<or> (scheme r \<noteq> [] \<and> scheme r \<in> set uses_netloc) \<or> take 2 url = ''//''
                 then ''//'' @ netloc r @ (if url \<noteq> [] \<and> take 1 url \<noteq> ''/'' then CHR ''/'' # url else url)
                 else url);
          url = (if scheme r \<noteq> [] then scheme r @ '':'' @ url else url);
          url = (if query r \<noteq> [] then url @ ''?'' @ query r else url);
          url = (if fragment r \<noteq> [] then url @ ''#'' @ fragment r else url)
      in url)"

subsection \<open>\<^verbatim>\<open>encode_url_path\<close>\<close>

text \<open>\<^verbatim>\<open>sep.join(items)\<close>.\<close>

fun join :: "string \<Rightarrow> string list \<Rightarrow> string" where
  "join sep [] = []"
| "join sep [x] = x"
| "join sep (x # y # ys) = x @ sep @ join sep (y # ys)"

definition encode_url_path :: "env \<Rightarrow> string \<Rightarrow> error + string" where
  "encode_url_path e url =
     (case urlparse e url of
        Inl err \<Rightarrow> Inl err
      | Inr result \<Rightarrow>
          (let correct_path = join ''/'' (map (quote ''/'') (split (CHR ''/'') (url_path result)))
           in Inr (geturl (result\<lparr>url_path := correct_path\<rparr>))))"

section \<open>\<^verbatim>\<open>ReadableUrlProcessor.__call__\<close>\<close>

text \<open>
  The request context \<^verbatim>\<open>web.ctx\<close>: the site, the path, the query string, the method,
  the encoding, and the attributes the processor writes. \<^verbatim>\<open>web.ctx.get('exclude')\<close> is
  false for a context without the attribute. \<^verbatim>\<open>web.safestr\<close> and \<^verbatim>\<open>web.safeunicode\<close>
  are the identity on \<^verbatim>\<open>str\<close>; what the processor prints is left out.
\<close>

record ctx =
  ctx_site :: site
  ctx_path :: string
  ctx_query :: string
  ctx_method :: string
  ctx_encoding :: "string option"
  ctx_exclude :: bool
  ctx_readable_path :: "string option"
  ctx_fullpath :: string
  ctx_status :: string

text \<open>
  The processor raises \<^verbatim>\<open>web.seeother\<close> or \<^verbatim>\<open>web.redirect\<close>, fails with an error of
  \<^verbatim>\<open>encode_url_path\<close>, lets an exception of the handler through, or returns: the
  output of the handler, or \<^verbatim>\<open>render.notfound(path)\<close>. The handler is a function of the
  context it is called in.
\<close>

datatype 'o response = Output 'o | Notfound string

datatype ('x, 'o) outcome =
  Seeother string | Redirect string | Error error | Handler_raised 'x | Returned "'o response"

text \<open>Lines 106 and 107: \<^verbatim>\<open>if readable_path.endswith('/'): readable_path = readable_path.rstrip('/')\<close>.\<close>

definition strip_trailing :: "string \<Rightarrow> string" where
  "strip_trailing readable_path =
     (if suffix ''/'' readable_path then rstrip (CHR ''/'') readable_path else readable_path)"

definition call :: "env \<Rightarrow> (ctx \<Rightarrow> 'x + 'o) \<Rightarrow> ctx \<Rightarrow> ('x, 'o) outcome \<times> ctx" where
  "call e handler c0 =
     (if prefix ''/l/'' (ctx_path c0)
      then (Seeother (''/languages/'' @ drop (length ''/l/'') (ctx_path c0)), c0)
      else if prefix ''/user/'' (ctx_path c0) \<and> ctx_site c0 (ctx_path c0) = None
      then (Seeother (''/people/'' @ drop (length ''/user/'') (ctx_path c0)), c0)
      else
        (let r1 = get_readable_path e (ctx_site c0) (ctx_path c0) patterns (ctx_encoding c0);
             c = c0\<lparr>ctx_exclude := ctx_exclude c0 \<or> excluded r1\<rparr>;
             normalized_path = rstrip (CHR ''/'') (ctx_path c);
             r2 = get_readable_path e (ctx_site c) normalized_path patterns (ctx_encoding c);
             c = c\<lparr>ctx_exclude := ctx_exclude c \<or> excluded r2\<rparr>;
             (real_path, readable_path) = paths r2;
             readable_path = strip_trailing readable_path
         in case encode_url_path e readable_path of
              Inl err \<Rightarrow> (Error err, c)
            | Inr readable_path \<Rightarrow>
                (case encode_url_path e real_path of
                   Inl err \<Rightarrow> (Error err, c)
                 | Inr real_path \<Rightarrow>
                     if readable_path \<noteq> ctx_path c
                        \<and> readable_path \<noteq> quote ''/'' (ctx_path c)
                        \<and> ctx_method c = ''GET''
                     then (Redirect (readable_path @ ctx_query c), c)
                     else
                       (let c = c\<lparr>ctx_readable_path := Some readable_path,
                                   ctx_path := real_path,
                                   ctx_fullpath := real_path @ ctx_query c\<rparr>
                        in case handler c of
                             Inl x \<Rightarrow> (Handler_raised x, c)
                           | Inr out \<Rightarrow>
                               if ctx_exclude c
                               then (Returned (Notfound (ctx_path c)),
                                     c\<lparr>ctx_status := ''404 Not Found''\<rparr>)
                               else (Returned (Output out), c)))))"

section \<open>The steps of the processor, named\<close>

text \<open>The request passes the two legacy redirects at the start of \<^verbatim>\<open>__call__\<close>.\<close>

definition passes_guards :: "ctx \<Rightarrow> bool" where
  "passes_guards c \<longleftrightarrow>
     \<not> prefix ''/l/'' (ctx_path c)
     \<and> \<not> (prefix ''/user/'' (ctx_path c) \<and> ctx_site c (ctx_path c) = None)"

text \<open>
  The pair \<^verbatim>\<open>(real_path, readable_path)\<close> that the redirect decision reads: resolved
  from the path without its trailing slashes, the readable path without its trailing
  slashes, both through \<^verbatim>\<open>encode_url_path\<close> (the readable path first).
\<close>

definition decision_paths :: "env \<Rightarrow> ctx \<Rightarrow> error + (string \<times> string)" where
  "decision_paths e c =
     (let r2 = get_readable_path e (ctx_site c) (rstrip (CHR ''/'') (ctx_path c)) patterns
                 (ctx_encoding c);
          (real_path, readable_path) = paths r2;
          readable_path = strip_trailing readable_path
      in case encode_url_path e readable_path of
           Inl err \<Rightarrow> Inl err
         | Inr readable_path \<Rightarrow>
             (case encode_url_path e real_path of
                Inl err \<Rightarrow> Inl err
              | Inr real_path \<Rightarrow> Inr (real_path, readable_path)))"

text \<open>
  The exclusion flag after the two calls of \<^verbatim>\<open>get_readable_path\<close>: on the path as
  requested, and on the path without its trailing slashes.
\<close>

definition exclude_after_resolution :: "env \<Rightarrow> ctx \<Rightarrow> bool" where
  "exclude_after_resolution e c \<longleftrightarrow>
     ctx_exclude c
     \<or> excluded (get_readable_path e (ctx_site c) (ctx_path c) patterns (ctx_encoding c))
     \<or> excluded (get_readable_path e (ctx_site c) (rstrip (CHR ''/'') (ctx_path c)) patterns
          (ctx_encoding c))"

text \<open>The context in which the handler runs.\<close>

definition handler_ctx :: "env \<Rightarrow> ctx \<Rightarrow> string \<Rightarrow> string \<Rightarrow> ctx" where
  "handler_ctx e c real_path readable_path =
     c\<lparr>ctx_exclude := exclude_after_resolution e c,
       ctx_readable_path := Some readable_path,
       ctx_path := real_path,
       ctx_fullpath := real_path @ ctx_query c\<rparr>"

section \<open>Concrete sites and requests\<close>

definition env0 :: env where
  "env0 = \<lparr>urlsafe = (\<lambda>s. s), is_exclusion = (\<lambda>_. False), bracketed_host_ok = (\<lambda>_. False)\<rparr>"

definition empty_site :: site where
  "empty_site = (\<lambda>_. None)"

definition work_foo :: thing where
  "work_foo = \<lparr>thing_key = ''/works/OLfooW'', type_key = ''/type/work'', props = (\<lambda>_. None)\<rparr>"

definition site_foo :: site where
  "site_foo = (\<lambda>k. if k = ''/works/OLfooW'' then Some work_foo else None)"

definition work1 :: thing where
  "work1 = \<lparr>thing_key = ''/works/OL1W'', type_key = ''/type/work'',
             props = (\<lambda>p. if p = ''title'' then Some ''A b'' else None)\<rparr>"

definition site_work1 :: site where
  "site_work1 = (\<lambda>k. if k = ''/works/OL1W'' then Some work1 else None)"

definition edition1 :: thing where
  "edition1 = \<lparr>thing_key = ''/books/OL1M'', type_key = ''/type/edition'',
                props = (\<lambda>p. if p = ''title'' then Some '' A b '' else None)\<rparr>"

definition site_books :: site where
  "site_books = (\<lambda>k. if k = ''/books/OL1M'' then Some edition1 else None)"

definition env_flag :: env where
  "env_flag = \<lparr>urlsafe = (\<lambda>s. s), is_exclusion = (\<lambda>t. t \<noteq> None), bracketed_host_ok = (\<lambda>_. False)\<rparr>"

definition handler0 :: "ctx \<Rightarrow> unit + string" where
  "handler0 c = Inr (''page of '' @ ctx_path c)"

definition request :: "site \<Rightarrow> string \<Rightarrow> string \<Rightarrow> string \<Rightarrow> ctx" where
  "request st meth p q =
     \<lparr>ctx_site = st, ctx_path = p, ctx_query = q, ctx_method = meth, ctx_encoding = None,
      ctx_exclude = False, ctx_readable_path = None, ctx_fullpath = p @ q,
      ctx_status = ''200 OK''\<rparr>"

definition other_thing :: thing where
  "other_thing = \<lparr>thing_key = ''/b/OL1M/ /?'', type_key = ''/type/other'', props = (\<lambda>_. None)\<rparr>"

definition site_other :: site where
  "site_other = (\<lambda>k. if k = ''/b/OL1M'' then Some other_thing else None)"


definition site_ia :: site where
  "site_ia = (\<lambda>k. if k = ''/books/ia:foo'' then Some edition1 else None)"

section \<open>Properties of the fallback lookup\<close>

lemma split_not_Nil: "split c s \<noteq> []"
  by (induction s) (auto split: list.splits)

lemma split_append: "split c (p @ c # r) = split c p @ split c r"
proof (induction p)
  case Nil
  show ?case by simp
next
  case (Cons x p)
  obtain w ws where w: "split c p = w # ws"
    using split_not_Nil [of c p] by (cases "split c p") auto
  show ?case using Cons w by simp
qed

lemma basename_of_append: "basename_of (p @ CHR ''/'' # r) = basename_of r"
  by (simp add: basename_of_def split_append split_not_Nil)

lemma basename_of_legacy:
  "prefix ''/a/'' k \<Longrightarrow> basename_of (''/authors/'' @ drop (length ''/a/'') k) = basename_of k"
  "prefix ''/b/'' k \<Longrightarrow> basename_of (''/books/'' @ drop (length ''/b/'') k) = basename_of k"
  "prefix ''/user/'' k \<Longrightarrow> basename_of (''/people/'' @ drop (length ''/user/'') k) = basename_of k"
  using basename_of_append [of "''/authors''"] basename_of_append [of "''/a''"]
    basename_of_append [of "''/books''"] basename_of_append [of "''/b''"]
    basename_of_append [of "''/people''"] basename_of_append [of "''/user''"]
  by (auto elim!: prefixE)

lemma retry_simps:
  "retry st cond new (Some t, k, asked) = (Some t, k, asked)"
  "retry st cond new (None, k, asked) =
     (if cond k then (st (new k), new k, asked @ [new k]) else (None, k, asked))"
  by (simp_all add: retry_def)

lemma basename_phase_Some: "basename_phase st b (Some t, k, asked) = (Some t, k, asked)"
  by (simp add: basename_phase_def retry_simps)

lemma basename_phase_None:
  "fst (basename_phase st b (None, k, asked)) = fst (first_hit st (basename_candidates b))"
  "snd (snd (basename_phase st b (None, k, asked))) =
     asked @ snd (first_hit st (basename_candidates b))"
  by (auto simp: basename_phase_def retry_simps basename_candidates_def split: option.splits)

lemma get_object_phases:
  "get_object st k =
     (let s = legacy_phase st (st k, k, [k]);
          r = basename_phase st (basename_of (fst (snd s))) s
      in (fst r, snd (snd r)))"
  by (simp add: get_object_def legacy_phase_def basename_phase_def basename_of_def Let_def)

lemma legacy_phase_Some: "legacy_phase st (Some t, k, asked) = (Some t, k, asked)"
  by (simp add: legacy_phase_def retry_simps)

lemma legacy_phase_None:
  "legacy_phase st (None, k, asked) =
     (case legacy_candidates k of
        [] \<Rightarrow> (None, k, asked)
      | k' # _ \<Rightarrow> (st k', k', asked @ [k']))"
proof -
  consider (a) "prefix ''/a/'' k" | (b) "\<not> prefix ''/a/'' k" "prefix ''/b/'' k"
    | (u) "\<not> prefix ''/a/'' k" "\<not> prefix ''/b/'' k" "prefix ''/user/'' k"
    | (n) "\<not> prefix ''/a/'' k" "\<not> prefix ''/b/'' k" "\<not> prefix ''/user/'' k"
    by blast
  then show ?thesis
  proof cases
    case a
    then show ?thesis
      by (cases "st (''/authors/'' @ drop (length ''/a/'') k)")
        (simp_all add: legacy_phase_def retry_simps legacy_candidates_def)
  next
    case b
    then show ?thesis
      by (cases "st (''/books/'' @ drop (length ''/b/'') k)")
        (simp_all add: legacy_phase_def retry_simps legacy_candidates_def)
  next
    case u
    then show ?thesis
      by (cases "st (''/people/'' @ drop (length ''/user/'') k)")
        (simp_all add: legacy_phase_def retry_simps legacy_candidates_def)
  next
    case n
    then show ?thesis
      by (simp add: legacy_phase_def retry_simps legacy_candidates_def)
  qed
qed

lemma legacy_candidates_Cons:
  assumes "legacy_candidates k = k' # ks"
  shows "ks = []" and "basename_of k' = basename_of k"
  using assms basename_of_legacy [of k]
  by (auto simp: legacy_candidates_def split: if_splits)

lemma fallback_candidates_eq:
  "fallback_candidates k = k # legacy_candidates k @ basename_candidates (basename_of k)"
  by (simp add: fallback_candidates_def basename_candidates_def Let_def)

lemma get_object_first_hit:
  "get_object st k = first_hit st (fallback_candidates k)"
proof (cases "st k")
  case (Some t)
  then show ?thesis
    by (simp add: get_object_phases legacy_phase_Some basename_phase_Some
        fallback_candidates_eq)
next
  case None
  show ?thesis
  proof (cases "legacy_candidates k")
    case Nil
    show ?thesis
      using None Nil
      by (simp add: get_object_phases legacy_phase_None basename_phase_None
          fallback_candidates_eq Let_def case_prod_unfold)
  next
    case (Cons k' ks)
    note c = legacy_candidates_Cons [OF Cons]
    show ?thesis
    proof (cases "st k'")
      case st': None
      show ?thesis
        using None Cons c st'
        by (simp add: get_object_phases legacy_phase_None basename_phase_None
            fallback_candidates_eq Let_def case_prod_unfold)
    next
      case st': (Some t)
      show ?thesis
        using None Cons c st'
        by (simp add: get_object_phases legacy_phase_None basename_phase_Some
            fallback_candidates_eq Let_def case_prod_unfold)
    qed
  qed
qed


lemma plus_ends_le: "n \<in> set (plus_ends P s) \<Longrightarrow> 0 < n \<and> n \<le> length s"
  by (induction s arbitrary: n) (auto split: if_splits)

lemma ends_le: "n \<in> set (ends r s) \<Longrightarrow> n \<le> length s"
proof (induction r arbitrary: s n)
  case (Lit l)
  then show ?case by (auto split: if_splits dest: prefix_length_le)
next
  case (Plus P)
  then show ?case using plus_ends_le by auto
next
  case (Seq a b)
  from Seq.prems obtain n1 n2 where n1: "n1 \<in> set (ends a s)"
    and n2: "n2 \<in> set (ends b (drop n1 s))" and n: "n = n1 + n2"
    by auto
  from Seq.IH(1) [OF n1] Seq.IH(2) [OF n2] n show ?case by simp
qed

lemma plus_ends_append_filter:
  "filter (\<lambda>n. n \<le> length s) (plus_ends P (s @ t)) = plus_ends P s"
proof (induction s)
  case Nil
  have "\<And>n. n \<in> set (plus_ends P t) \<Longrightarrow> 0 < n" using plus_ends_le by blast
  then show ?case by (auto simp: filter_empty_conv)
next
  case (Cons c s)
  show ?case
  proof (cases "P c")
    case True
    have "filter (\<lambda>n. n \<le> Suc (length s)) (map Suc (plus_ends P (s @ t)))
          = map Suc (filter (\<lambda>n. n \<le> length s) (plus_ends P (s @ t)))"
      by (simp add: filter_map comp_def)
    with True Cons show ?thesis by simp
  next
    case False
    then show ?thesis by simp
  qed
qed

lemma concat_map_if:
  "concat (map (\<lambda>n. if Q n then f n else []) xs) = concat (map f (filter Q xs))"
  by (induction xs) auto

lemma ends_append_filter:
  "filter (\<lambda>n. n \<le> length s) (ends r (s @ t)) = ends r s"
proof (induction r arbitrary: s t)
  case (Lit l)
  show ?case
  proof (cases "length l \<le> length s")
    case True
    then have "prefix l (s @ t) = prefix l s"
      by (auto simp: prefix_append)
    with True show ?thesis by simp
  next
    case False
    then have "\<not> prefix l s" using prefix_length_le by blast
    with False show ?thesis by simp
  qed
next
  case (Plus P)
  show ?case by (simp add: plus_ends_append_filter)
next
  case (Seq a b)
  let ?f = "\<lambda>u n. map ((+) n) (ends b (drop n u))"
  have inner: "filter (\<lambda>k. k \<le> length s) (?f (s @ t) n)
               = (if n \<le> length s then ?f s n else [])" for n
  proof (cases "n \<le> length s")
    case True
    have "filter (\<lambda>k. k \<le> length s) (map ((+) n) (ends b (drop n s @ t)))
          = map ((+) n) (filter (\<lambda>k. k \<le> length (drop n s)) (ends b (drop n s @ t)))"
      using True by (auto simp: filter_map comp_def intro!: arg_cong [where f = "map ((+) n)"] filter_cong)
    with True Seq.IH(2) [of "drop n s" t] show ?thesis by simp
  next
    case False
    then show ?thesis by (auto simp: filter_empty_conv)
  qed
  have "filter (\<lambda>k. k \<le> length s) (ends (Seq a b) (s @ t))
        = concat (map (\<lambda>n. if n \<le> length s then ?f s n else []) (ends a (s @ t)))"
    by (simp only: ends.simps filter_concat map_map comp_def inner)
  also have "\<dots> = concat (map (?f s) (filter (\<lambda>n. n \<le> length s) (ends a (s @ t))))"
    by (rule concat_map_if)
  also have "\<dots> = ends (Seq a b) s" by (simp add: Seq.IH(1))
  finally show ?case .
qed


lemma plus_ends_all: "n \<in> set (plus_ends P s) \<Longrightarrow> i < n \<Longrightarrow> P (s ! i)"
proof (induction s arbitrary: n i)
  case Nil
  then show ?case by simp
next
  case (Cons c s)
  then show ?case by (cases i) (auto split: if_splits)
qed

lemma ends_last_not_slash:
  "last_not_slash r \<Longrightarrow> n \<in> set (ends r s) \<Longrightarrow> 0 < n \<and> s ! (n - 1) \<noteq> CHR ''/''"
proof (induction r arbitrary: s n)
  case (Lit l)
  from Lit.prems have l: "l \<noteq> []" "last l \<noteq> CHR ''/''" and p: "prefix l s" and n: "n = length l"
    by (auto split: if_splits)
  from p obtain t where s: "s = l @ t" by (auto simp: prefix_def)
  from l have "s ! (length l - 1) = last l"
    unfolding s by (simp add: nth_append last_conv_nth)
  with l n show ?case by simp
next
  case (Plus P)
  from Plus.prems have n: "n \<in> set (plus_ends P s)" and np: "\<not> P (CHR ''/'')" by auto
  from plus_ends_le [OF n] have pos: "0 < n" by simp
  with plus_ends_all [OF n, of "n - 1"] have "P (s ! (n - 1))" by simp
  with np pos show ?case by auto
next
  case (Seq a b)
  from Seq.prems obtain n1 n2 where n1: "n1 \<in> set (ends a s)"
    and n2: "n2 \<in> set (ends b (drop n1 s))" and n: "n = n1 + n2" and b: "last_not_slash b"
    by auto
  from Seq.IH(2) [OF b n2] have pos: "0 < n2" and ns: "drop n1 s ! (n2 - 1) \<noteq> CHR ''/''"
    by auto
  from ends_le [OF n2] have le: "n2 \<le> length s - n1" by simp
  from pos le have "drop n1 s ! (n2 - 1) = s ! (n1 + n2 - 1)"
    by (subst nth_drop) auto
  with ns pos n show ?case by simp
qed

lemma ends_append_slash:
  assumes "last_not_slash r"
  shows "ends r (p @ ''/'') = ends r p"
proof -
  have "n \<le> length p" if n: "n \<in> set (ends r (p @ ''/''))" for n
  proof (rule ccontr)
    assume "\<not> n \<le> length p"
    with ends_le [OF n] have "n = Suc (length p)" by simp
    with ends_last_not_slash [OF assms n] show False by (simp add: nth_append)
  qed
  then have "filter (\<lambda>n. n \<le> length p) (ends r (p @ ''/'')) = ends r (p @ ''/'')"
    by (simp add: filter_id_conv)
  with ends_append_filter [of p r "''/''"] show ?thesis by simp
qed

lemma re_match_append_slash:
  assumes "last_not_slash r"
  shows "re_match r (p @ ''/'') = re_match r p"
proof (cases "ends r p")
  case Nil
  then show ?thesis by (simp add: re_match_def ends_append_slash [OF assms])
next
  case (Cons n ns)
  then have "n \<in> set (ends r p)" by simp
  from ends_le [OF this] Cons show ?thesis
    by (simp add: re_match_def ends_append_slash [OF assms])
qed

lemma re_match_prefix: "re_match r p = Some pre \<Longrightarrow> prefix pre p"
  by (auto simp: re_match_def take_is_prefix split: list.splits)

lemma match_append_slash:
  assumes "\<forall>r \<in> set rules. last_not_slash (fst r)"
    and "match rules p = Some m" and "m_prefix m = p"
  shows "match rules (p @ ''/'') = Some m"
  using assms
proof (induction rules)
  case Nil
  then show ?case by simp
next
  case (Cons rule rules)
  obtain pat ty pr d where rule: "rule = (pat, ty, pr, d)" by (cases rule) auto
  with Cons.prems(1) have l: "last_not_slash pat" by simp
  show ?case
  proof (cases "re_match pat p")
    case None
    with Cons rule l show ?thesis by (simp add: re_match_append_slash)
  next
    case (Some pre)
    with Cons.prems(2,3) rule have pre: "pre = p"
      by (auto simp: Let_def)
    from Some Cons.prems(2) rule l show ?thesis
      unfolding pre
      by (auto simp: re_match_append_slash Let_def lstrips_def listget_def numeral_2_eq_2)
  qed
qed

lemma patterns_last_not_slash: "\<forall>r \<in> set patterns. last_not_slash (fst r)"
  by (simp add: patterns_def olid_pattern_def is_ia_char_def)

lemma match_patterns_append_slash:
  "match patterns p = Some m \<Longrightarrow> m_prefix m = p \<Longrightarrow> match patterns (p @ ''/'') = Some m"
  using match_append_slash [OF patterns_last_not_slash] .

section \<open>Properties of the library functions\<close>

lemmas eval_defs = patterns_def olid_pattern_def re_match_def is_word_def is_digit_def
  is_ia_char_def is_list_char_def Let_def lstrips_def listget_def numeral_2_eq_2

lemma hexdigit_not_slash: "k < 16 \<Longrightarrow> ''0123456789ABCDEF'' ! k \<noteq> CHR ''/''"
proof -
  assume "k < 16"
  then have "''0123456789ABCDEF'' ! k \<in> set ''0123456789ABCDEF''"
    by (intro nth_mem) simp
  then show ?thesis by auto
qed

lemma hex_byte_no_slash:
  assumes "b < 256"
  shows "CHR ''/'' \<notin> set (hex_byte b)"
proof -
  have "b div 16 < 16" "b mod 16 < 16" using assms by auto
  then show ?thesis
    using hexdigit_not_slash [of "b div 16"] hexdigit_not_slash [of "b mod 16"]
    by (simp add: hex_byte_def)
qed

lemma of_char_less_256: "(of_char c :: nat) < 256"
  by (cases c) (simp add: Let_def)

lemma utf8_bytes:
  assumes "b \<in> set (utf8 c)"
  shows "b < 256"
proof -
  have n: "(of_char c :: nat) < 256" by (rule of_char_less_256)
  then have "(of_char c :: nat) div 64 < 4" "(of_char c :: nat) mod 64 < 64"
    by (simp_all add: less_mult_imp_div_less)
  with assms n show ?thesis
    by (auto simp: utf8_def Let_def split: if_splits)
qed

lemma quote_char_no_slash:
  "CHR ''/'' \<notin> set safe \<Longrightarrow> CHR ''/'' \<notin> set (quote_char safe c)"
  using utf8_bytes [of _ c] hex_byte_no_slash
  by (auto simp: quote_char_def always_safe_def Let_def)

lemma quote_no_slash: "CHR ''/'' \<notin> set safe \<Longrightarrow> CHR ''/'' \<notin> set (quote safe s)"
  using quote_char_no_slash by (auto simp: quote_def)

lemma quote_plus_no_slash: "CHR ''/'' \<notin> set (quote_plus s)"
  using quote_no_slash [of "[]" s] quote_no_slash [of "'' ''" s]
  by (auto simp: quote_plus_def)

lemma splitext_append: "splitext p = (key, ext) \<Longrightarrow> key @ ext = p"
  by (auto simp: splitext_def Let_def split: if_splits)

lemma rfind_dot_ext:
  assumes "x \<in> set [''.json'', ''.rdf'', ''.yml'']"
  shows "rfind (CHR ''.'') (b @ c # x) = int (length b) + 1"
  using assms by (auto simp: rfind_def)

lemma rfind_slash_ext:
  assumes "x \<in> set [''.json'', ''.rdf'', ''.yml'']" "c \<noteq> CHR ''/''"
  shows "rfind (CHR ''/'') (b @ c # x) = rfind (CHR ''/'') b"
  using assms by (auto simp: rfind_def takeWhile_append)

lemma rfind_bounds: "- 1 \<le> rfind c s" "rfind c s < int (length s)"
proof -
  have "length (takeWhile (\<lambda>x. x \<noteq> c) (rev s)) \<le> length s"
    using length_takeWhile_le [of "\<lambda>x. x \<noteq> c" "rev s"] by simp
  then show "- 1 \<le> rfind c s" "rfind c s < int (length s)"
    by (simp_all add: rfind_def)
qed

lemma splitext_structured:
  assumes x: "x \<in> set [''.json'', ''.rdf'', ''.yml'']" and c: "c \<noteq> CHR ''.''" "c \<noteq> CHR ''/''"
  shows "splitext (b @ c # x) = (b @ [c], x)"
proof -
  let ?p = "b @ c # x"
  let ?sep = "rfind (CHR ''/'') b"
  have dot: "rfind (CHR ''.'') ?p = int (length b) + 1" by (rule rfind_dot_ext [OF x])
  have sep: "rfind (CHR ''/'') ?p = ?sep" by (rule rfind_slash_ext [OF x c(2)])
  have b1: "- 1 \<le> ?sep" and b2: "?sep < int (length b)" by (rule rfind_bounds)+
  define k where "k = nat (?sep + 1)"
  have k: "k \<le> length b" using b1 b2 by (simp add: k_def)
  have tk: "nat (int (length b) + 1 - (?sep + 1)) = Suc (length b - k)"
    using b1 b2 by (simp add: k_def nat_diff_distrib)
  have seg: "take (Suc (length b - k)) (drop k ?p) = drop k b @ [c]"
    using k by simp
  have ex: "list_ex (\<lambda>c. c \<noteq> CHR ''.'')
      (take (nat (int (length b) + 1 - (?sep + 1))) (drop (nat (?sep + 1)) ?p))"
    unfolding tk k_def [symmetric] seg using c(1) by (simp add: list_ex_iff)
  have gt: "int (length b) + 1 > ?sep" using b2 by simp
  have n: "nat (int (length b) + 1) = Suc (length b)" by simp
  show ?thesis
    unfolding splitext_def Let_def dot sep using ex gt by (simp add: n)
qed

section \<open>Properties of the processor\<close>

lemma call_guarded:
  "\<not> passes_guards c \<Longrightarrow> \<exists>loc. call e h c = (Seeother loc, c)"
  by (auto simp: call_def passes_guards_def)

lemma decision_paths_Inr:
  assumes "decision_paths e c = Inr (real_path, readable_path)"
  shows "encode_url_path e
           (strip_trailing (snd (paths (get_readable_path e (ctx_site c)
                       (rstrip (CHR ''/'') (ctx_path c)) patterns (ctx_encoding c))))) = Inr readable_path"
    and "encode_url_path e
           (fst (paths (get_readable_path e (ctx_site c) (rstrip (CHR ''/'') (ctx_path c))
                       patterns (ctx_encoding c)))) = Inr real_path"
  using assms
  by (simp_all add: decision_paths_def Let_def case_prod_unfold split: sum.splits)

lemma decision_paths_Inl:
  assumes "decision_paths e c = Inl err"
  shows "encode_url_path e
           (strip_trailing (snd (paths (get_readable_path e (ctx_site c)
                       (rstrip (CHR ''/'') (ctx_path c)) patterns (ctx_encoding c))))) = Inl err
        \<or> (\<exists>rd. encode_url_path e
           (strip_trailing (snd (paths (get_readable_path e (ctx_site c)
                       (rstrip (CHR ''/'') (ctx_path c)) patterns (ctx_encoding c))))) = Inr rd
            \<and> encode_url_path e
           (fst (paths (get_readable_path e (ctx_site c) (rstrip (CHR ''/'') (ctx_path c))
                       patterns (ctx_encoding c)))) = Inl err)"
  using assms
  by (simp add: decision_paths_def Let_def case_prod_unfold split: sum.splits)

lemma call_decided:
  assumes g: "passes_guards c" and d: "decision_paths e c = Inr (real_path, readable_path)"
  shows "call e h c =
     (if readable_path \<noteq> ctx_path c \<and> readable_path \<noteq> quote ''/'' (ctx_path c)
         \<and> ctx_method c = ''GET''
      then (Redirect (readable_path @ ctx_query c), c\<lparr>ctx_exclude := exclude_after_resolution e c\<rparr>)
      else (case h (handler_ctx e c real_path readable_path) of
              Inl x \<Rightarrow> (Handler_raised x, handler_ctx e c real_path readable_path)
            | Inr out \<Rightarrow>
                if exclude_after_resolution e c
                then (Returned (Notfound real_path),
                      (handler_ctx e c real_path readable_path)\<lparr>ctx_status := ''404 Not Found''\<rparr>)
                else (Returned (Output out), handler_ctx e c real_path readable_path)))"
proof -
  have g': "\<not> prefix ''/l/'' (ctx_path c)"
    "\<not> (prefix ''/user/'' (ctx_path c) \<and> ctx_site c (ctx_path c) = None)"
    using g by (simp_all add: passes_guards_def)
  note p = decision_paths_Inr [OF d]
  show ?thesis
    unfolding call_def
    apply (simp only: g' if_False)
    apply (simp add: Let_def case_prod_unfold p exclude_after_resolution_def handler_ctx_def
        disj_assoc cong: sum.case_cong if_cong)
    done
qed

lemmas url_defs = encode_url_path_def urlparse_def urlsplit_def geturl_def split_once_def
  uses_params_def uses_netloc_def quote_def quote_char_def always_safe_def hex_byte_def utf8_def
  Let_def is_ascii_alpha_def scheme_char_def splitparams_def

lemma enc_empty: "encode_url_path e [] = Inr []"
  by (simp add: url_defs)

lemma enc_bracket: "encode_url_path e ''//['' = Inl ValueError"
  by (simp add: url_defs)

lemma enc_books: "encode_url_path e ''/books/OL1M/A+b/edit'' = Inr ''/books/OL1M/A%2Bb/edit''"
  by (simp add: url_defs)

lemma enc_weird: "encode_url_path e ''/b/OL1M/ /?'' = Inr ''/b/OL1M/%20/''"
  by (simp add: url_defs)

lemma call_error:
  assumes g: "passes_guards c" and d: "decision_paths e c = Inl err"
  shows "call e h c = (Error err, c\<lparr>ctx_exclude := exclude_after_resolution e c\<rparr>)"
proof -
  have g': "\<not> prefix ''/l/'' (ctx_path c)"
    "\<not> (prefix ''/user/'' (ctx_path c) \<and> ctx_site c (ctx_path c) = None)"
    using g by (simp_all add: passes_guards_def)
  from decision_paths_Inl [OF d] show ?thesis
  proof
    assume p: "encode_url_path e (strip_trailing (snd (paths (get_readable_path e (ctx_site c)
                       (rstrip (CHR ''/'') (ctx_path c)) patterns (ctx_encoding c))))) = Inl err"
    show ?thesis
      unfolding call_def
      apply (simp only: g' if_False)
      apply (simp add: Let_def case_prod_unfold p exclude_after_resolution_def disj_assoc)
      done
  next
    assume "\<exists>rd. encode_url_path e (strip_trailing (snd (paths (get_readable_path e (ctx_site c)
                       (rstrip (CHR ''/'') (ctx_path c)) patterns (ctx_encoding c))))) = Inr rd
            \<and> encode_url_path e
           (fst (paths (get_readable_path e (ctx_site c) (rstrip (CHR ''/'') (ctx_path c))
                       patterns (ctx_encoding c)))) = Inl err"
    then obtain rd where p: "encode_url_path e (strip_trailing (snd (paths (get_readable_path e
        (ctx_site c) (rstrip (CHR ''/'') (ctx_path c)) patterns (ctx_encoding c))))) = Inr rd"
      "encode_url_path e (fst (paths (get_readable_path e (ctx_site c)
        (rstrip (CHR ''/'') (ctx_path c)) patterns (ctx_encoding c)))) = Inl err"
      by blast
    show ?thesis
      unfolding call_def
      apply (simp only: g' if_False)
      apply (simp add: Let_def case_prod_unfold p exclude_after_resolution_def disj_assoc)
      done
  qed
qed

lemma strip_trailing_rstrip: "strip_trailing s = rstrip (CHR ''/'') s"
proof (cases "suffix ''/'' s")
  case True
  then show ?thesis by (simp add: strip_trailing_def)
next
  case False
  then have "s = [] \<or> last s \<noteq> CHR ''/''"
    by (cases s rule: rev_cases) (auto simp: suffix_def)
  then have "dropWhile (\<lambda>x. x = CHR ''/'') (rev s) = rev s"
    by (cases s rule: rev_cases) auto
  with False show ?thesis by (simp add: strip_trailing_def rstrip_def)
qed

lemma rstrip_no_trailing: "\<not> suffix [c] (rstrip c s)"
proof
  assume "suffix [c] (rstrip c s)"
  then obtain b where "rstrip c s = b @ [c]" by (auto simp: suffix_def)
  then have "dropWhile (\<lambda>x. x = c) (rev s) = c # rev b"
    by (metis rev.simps(2) rev_rev_ident rstrip_def rev_append rev_singleton_conv append_Nil)
  then show False using hd_dropWhile [of "\<lambda>x. x = c" "rev s"] by auto
qed

section \<open>Evaluations on concrete paths\<close>

lemma match_about: "match patterns ''/about/us'' = None"
  by (simp add: eval_defs)

lemma match_b_OL1M:
  "match patterns ''/b/OL1M/x/edit''
   = Some \<lparr>m_type = ''/type/edition'', m_property = ''title'', m_default = ''untitled'',
           m_prefix = ''/b/OL1M'', m_middle = ''x'', m_suffix = ''/edit''\<rparr>"
  by (simp add: eval_defs)

lemma get_object_b_OL1M: "fst (get_object site_books ''/b/OL1M'') = Some edition1"
  by (simp add: get_object_first_hit fallback_candidates_def legacy_candidates_def
      basename_of_def site_books_def suffix_to_prefix Let_def)

lemma quote_plus_A_b: "quote_plus (strip '' A b '') = ''A+b''"
  by (simp add: quote_plus_def strip_def is_space_def quote_def quote_char_def
      always_safe_def Let_def)

lemma match_b_json:
  "match patterns ''/b/OL1M.json''
   = Some \<lparr>m_type = ''/type/edition'', m_property = ''title'', m_default = ''untitled'',
           m_prefix = ''/b/OL1M'', m_middle = [], m_suffix = []\<rparr>"
  by (simp add: eval_defs)

lemma get_object_b_OL1M_asked:
  "get_object site_books ''/b/OL1M'' = (Some edition1, [''/b/OL1M'', ''/books/OL1M''])"
  by (simp add: get_object_first_hit fallback_candidates_def legacy_candidates_def
      basename_of_def site_books_def suffix_to_prefix Let_def)

lemma paths_b_OL1M:
  "get_readable_path e site_books ''/b/OL1M/x/edit'' patterns None
   = \<lparr>paths = (''/books/OL1M/edit'', ''/books/OL1M/'' @ quote_plus (urlsafe e ''A b'') @ ''/edit''),
      excluded = is_exclusion e (Some edition1), requested = [''/b/OL1M'', ''/books/OL1M'']\<rparr>"
  by (simp add: get_readable_path_def match_b_OL1M is_structured_def suffix_to_prefix
      get_object_b_OL1M_asked slug_def edition1_def strip_def is_space_def Let_def)

section \<open>Evaluations on concrete requests\<close>

lemma rstrip_literal [simp]:
  "rstrip (CHR ''/'') ''/b/OL1M/x/edit'' = ''/b/OL1M/x/edit''"
  "rstrip (CHR ''/'') ''/books/OL1M'' = ''/books/OL1M''"
  "rstrip (CHR ''/'') ''/l/foo/'' = ''/l/foo''"
  "rstrip (CHR ''/'') ''//[/'' = ''//[''"
  "rstrip (CHR ''/'') ''/b/OL1M/ /'' = ''/b/OL1M/ ''"
  "rstrip (CHR ''/'') ''/'' = []"
  by (simp_all add: rstrip_def)

lemma decision_b_OL1M:
  "decision_paths env0 (request site_books ''GET'' ''/b/OL1M/x/edit'' ''?m=1'')
   = Inr (''/books/OL1M/edit'', ''/books/OL1M/A%2Bb/edit'')"
proof -
  have q: "quote_plus ''A b'' = ''A+b''"
    by (simp add: quote_plus_def quote_def quote_char_def always_safe_def Let_def)
  have e1: "encode_url_path env0 ''/books/OL1M/edit'' = Inr ''/books/OL1M/edit''"
    by (simp add: url_defs)
  show ?thesis
    by (simp add: decision_paths_def request_def paths_b_OL1M env0_def q strip_trailing_rstrip
        rstrip_def enc_books e1 [unfolded env0_def])
qed

lemma match_misc:
  "match patterns ''/l/foo'' = None"
  "match patterns ''//['' = None"
  "match patterns [] = None"
  "match patterns ''/'' = None"
  by (simp_all add: eval_defs)

lemma resolve_books_OL1M:
  "get_readable_path e site_books ''/books/OL1M'' patterns None
   = \<lparr>paths = (''/books/OL1M'', ''/books/OL1M/'' @ quote_plus (urlsafe e ''A b'')),
      excluded = is_exclusion e (Some edition1), requested = [''/books/OL1M'']\<rparr>"
proof -
  have m: "match patterns ''/books/OL1M''
     = Some \<lparr>m_type = ''/type/edition'', m_property = ''title'', m_default = ''untitled'',
           m_prefix = ''/books/OL1M'', m_middle = [], m_suffix = []\<rparr>"
    by (simp add: eval_defs)
  have g: "get_object site_books ''/books/OL1M'' = (Some edition1, [''/books/OL1M''])"
    by (simp add: get_object_first_hit fallback_candidates_def site_books_def Let_def)
  show ?thesis
    by (simp add: get_readable_path_def m is_structured_def suffix_to_prefix g slug_def
        edition1_def strip_def is_space_def Let_def)
qed

lemma decision_paths_intro:
  assumes "encode_url_path e (strip_trailing (snd (paths (get_readable_path e (ctx_site c)
             (rstrip (CHR ''/'') (ctx_path c)) patterns (ctx_encoding c))))) = Inr readable_path"
    and "encode_url_path e (fst (paths (get_readable_path e (ctx_site c)
             (rstrip (CHR ''/'') (ctx_path c)) patterns (ctx_encoding c)))) = Inr real_path"
  shows "decision_paths e c = Inr (real_path, readable_path)"
  using assms by (simp add: decision_paths_def Let_def case_prod_unfold)

lemma call_root:
  assumes "ctx_path c = ''/''" and "ctx_method c = ''GET''"
  shows "fst (call e h c) = Redirect (ctx_query c)"
proof -
  have g: "passes_guards c" using assms(1) by (simp add: passes_guards_def)
  have d: "decision_paths e c = Inr ([], [])"
    using assms(1)
    by (simp add: decision_paths_def get_readable_path_def match_misc strip_trailing_rstrip
        rstrip_def enc_empty)
  show ?thesis
    unfolding call_decided [OF g d] using assms
    by (simp add: quote_def quote_char_def always_safe_def)
qed


lemma not_structured_slash: "\<not> is_structured (p @ ''/'')"
  by (simp add: is_structured_def suffix_to_prefix)

lemma rstrip_append_slash: "rstrip (CHR ''/'') (p @ ''/'') = rstrip (CHR ''/'') p"
  by (simp add: rstrip_def)

lemma match_books_OL1M:
  "match patterns ''/books/OL1M''
     = Some \<lparr>m_type = ''/type/edition'', m_property = ''title'', m_default = ''untitled'',
           m_prefix = ''/books/OL1M'', m_middle = [], m_suffix = []\<rparr>"
  by (simp add: eval_defs)

section \<open>The claims\<close>

text \<open>
  C3, as amended. For every key, \<^verbatim>\<open>_get_object\<close> asks the site for the key itself,
  then, for a key under \<^verbatim>\<open>/a/\<close>, \<^verbatim>\<open>/b/\<close> or \<^verbatim>\<open>/user/\<close>, for the key under
  \<^verbatim>\<open>/authors/\<close>, \<^verbatim>\<open>/books/\<close> or \<^verbatim>\<open>/people/\<close>, then for the final segment under
  \<^verbatim>\<open>/books/\<close> when it starts with \<^verbatim>\<open>ia:\<close>, and under \<^verbatim>\<open>/works/\<close>, \<^verbatim>\<open>/books/\<close> or
  \<^verbatim>\<open>/authors/\<close> when it starts with \<^verbatim>\<open>OL\<close> and ends with \<^verbatim>\<open>W\<close>, \<^verbatim>\<open>M\<close> or \<^verbatim>\<open>A\<close>
  (digits in between are not required). The keys are requested in this order, the first
  record found is returned and no further key is requested; the result is not found
  exactly when every candidate fails.
\<close>

theorem C3_fallback_order:
  "get_object st k = first_hit st (fallback_candidates k)"
  by (rule get_object_first_hit)

theorem C3_fallback_order_witness:
  "get_object site_work1 ''/a/OL1W'' = (Some work1, [''/a/OL1W'', ''/authors/OL1W'', ''/works/OL1W''])"
  using C3_fallback_order [of site_work1 "''/a/OL1W''"]
  by (simp add: fallback_candidates_def legacy_candidates_def basename_of_def
      site_work1_def suffix_to_prefix Let_def)

text \<open>
  C3 as stated fails: the final segment \<^verbatim>\<open>OLfooW\<close> is not of the form
  \<^verbatim>\<open>OL<digits>W\<close>, and the code still finds the record under \<^verbatim>\<open>/works/\<close>.
\<close>

theorem C3_counterexample:
  "get_object site_foo ''/x/OLfooW'' = (Some work_foo, [''/x/OLfooW'', ''/works/OLfooW''])
   \<and> first_hit site_foo (spec_candidates ''/x/OLfooW'') = (None, [''/x/OLfooW''])"
  by (simp add: get_object_first_hit fallback_candidates_def spec_candidates_def
      legacy_candidates_def basename_of_def site_foo_def suffix_to_prefix is_olid_def Let_def
      is_digit_def)

text \<open>
  C5. For every path that no rule matches, \<^verbatim>\<open>get_readable_path\<close> returns the pair of the
  path and the path, whatever the site and the encoding; it requests no key from the site
  and does not set the exclusion flag.
\<close>

theorem C5_no_match_passthrough:
  assumes "match patterns p = None"
  shows "get_readable_path e st p patterns enc
         = \<lparr>paths = (p, p), excluded = False, requested = []\<rparr>"
  using assms by (simp add: get_readable_path_def)

theorem C5_no_match_passthrough_witness:
  "match patterns ''/about/us'' = None
   \<and> get_readable_path env0 site_books ''/about/us'' patterns None
       = \<lparr>paths = (''/about/us'', ''/about/us''), excluded = False, requested = []\<rparr>"
  using C5_no_match_passthrough [OF match_about] match_about by simp

text \<open>
  C2. For every path that a rule matches, with no encoding override and no structured
  extension, when the fallback lookup of the matched prefix finds a record of the rule's
  type: the real path is the record's key followed by the suffix, and the readable path
  is the record's key, a slash, the slug and the suffix. The slug is the property named
  by the rule (the rule's default title when the property is absent or empty), stripped
  of surrounding white space, passed through \<^verbatim>\<open>urlsafe\<close> and encoded by
  \<^verbatim>\<open>quote_plus\<close>; it contains no slash, so it is one segment of the readable path,
  and the real path has no such segment.
\<close>

theorem C2_slug_in_readable_only:
  assumes "match patterns p = Some m" and "\<not> is_structured p"
    and "fst (get_object st (m_prefix m)) = Some t" and "type_key t = m_type m"
  shows "(let title = (case props t (m_property m) of
                         None \<Rightarrow> m_default m
                       | Some v \<Rightarrow> if v = [] then m_default m else v);
              sl = quote_plus (urlsafe e (strip title))
          in paths (get_readable_path e st p patterns None)
               = (thing_key t @ m_suffix m, thing_key t @ ''/'' @ sl @ m_suffix m)
             \<and> CHR ''/'' \<notin> set sl)"
  using assms
  by (simp add: get_readable_path_def slug_def Let_def case_prod_unfold quote_plus_no_slash)

theorem C2_slug_in_readable_only_witness:
  "paths (get_readable_path env0 site_books ''/b/OL1M/x/edit'' patterns None)
   = (''/books/OL1M/edit'', ''/books/OL1M/A+b/edit'')"
proof -
  have s: "\<not> is_structured ''/b/OL1M/x/edit''"
    by (simp add: is_structured_def suffix_to_prefix)
  show ?thesis
    using C2_slug_in_readable_only [OF match_b_OL1M s, of site_books edition1 env0]
      get_object_b_OL1M quote_plus_A_b
    by (simp add: edition1_def env0_def Let_def)
qed

text \<open>
  C6. For every path that a rule matches, when the path ends in \<^verbatim>\<open>.json\<close>, \<^verbatim>\<open>.rdf\<close> or
  \<^verbatim>\<open>.yml\<close> or an encoding override is present: \<^verbatim>\<open>os.path.splitext\<close> cuts the path
  into a key and an extension, the key goes through the fallback lookup, and both paths
  of the result are the found record's key followed by the extension (the path itself
  when no record is found). No slug is added and the exclusion flag is not set. The
  extension is the structured one whenever the character before it is neither a dot nor
  a slash.
\<close>

theorem C6_structured_branch:
  assumes "match patterns p = Some m" and "enc \<noteq> None \<or> is_structured p"
    and "splitext p = (key, ext)" and "get_object st key = (thing, asked)"
  shows "key @ ext = p
     \<and> get_readable_path e st p patterns enc
         = \<lparr>paths = (case thing of
                       None \<Rightarrow> (p, p)
                     | Some t \<Rightarrow> (thing_key t @ ext, thing_key t @ ext)),
            excluded = False, requested = asked\<rparr>
     \<and> (\<forall>x b c. x \<in> set [''.json'', ''.rdf'', ''.yml''] \<and> p = b @ c # x
            \<and> c \<noteq> CHR ''.'' \<and> c \<noteq> CHR ''/'' \<longrightarrow> key = b @ [c] \<and> ext = x)"
proof (intro conjI allI impI)
  show "key @ ext = p" using assms(3) by (rule splitext_append)
next
  show "get_readable_path e st p patterns enc
         = \<lparr>paths = (case thing of
                       None \<Rightarrow> (p, p)
                     | Some t \<Rightarrow> (thing_key t @ ext, thing_key t @ ext)),
            excluded = False, requested = asked\<rparr>"
    using assms by (auto simp: get_readable_path_def Let_def split: option.splits)
next
  fix x b c
  assume h: "x \<in> set [''.json'', ''.rdf'', ''.yml''] \<and> p = b @ c # x
            \<and> c \<noteq> CHR ''.'' \<and> c \<noteq> CHR ''/''"
  then have "splitext p = (b @ [c], x)" using splitext_structured [of x c b] by blast
  with assms(3) show "key = b @ [c]" "ext = x" by simp_all
qed

theorem C6_structured_branch_witness:
  "get_readable_path env0 site_books ''/b/OL1M.json'' patterns None
   = \<lparr>paths = (''/books/OL1M.json'', ''/books/OL1M.json''), excluded = False,
      requested = [''/b/OL1M'', ''/books/OL1M'']\<rparr>"
proof -
  have s: "None \<noteq> (None :: string option) \<or> is_structured ''/b/OL1M.json''"
    by (simp add: is_structured_def suffix_to_prefix)
  have x: "splitext ''/b/OL1M.json'' = (''/b/OL1M'', ''.json'')"
    using splitext_structured [of "''.json''" "CHR ''M''" "''/b/OL1''"] by simp
  show ?thesis
    using C6_structured_branch [OF match_b_json s x get_object_b_OL1M_asked, of env0]
    by (simp add: edition1_def)
qed

text \<open>
  C1, as amended. For every request that passes the two legacy redirects at the start of
  the processor (\<^verbatim>\<open>/l/\<close>, and \<^verbatim>\<open>/user/\<close> with no record at the path) and whose paths
  \<^verbatim>\<open>encode_url_path\<close> encodes without an error: the processor raises a redirect if and
  only if the readable path differs from the request path, differs from the
  percent-encoded request path, and the method is GET; the redirect then goes to the
  readable path followed by the query string. For every other method no redirect is
  raised.
\<close>

theorem C1_redirect_decision:
  assumes "passes_guards c" and "decision_paths e c = Inr (real_path, readable_path)"
  shows "((\<exists>loc. fst (call e h c) = Redirect loc)
          = (readable_path \<noteq> ctx_path c \<and> readable_path \<noteq> quote ''/'' (ctx_path c)
             \<and> ctx_method c = ''GET''))
       \<and> ((\<exists>loc. fst (call e h c) = Redirect loc)
          = (fst (call e h c) = Redirect (readable_path @ ctx_query c)))"
  unfolding call_decided [OF assms] by (auto split: sum.splits)

theorem C1_redirect_decision_witness:
  "fst (call env0 handler0 (request site_books ''GET'' ''/b/OL1M/x/edit'' ''?m=1''))
   = Redirect ''/books/OL1M/A%2Bb/edit?m=1''"
proof -
  have g: "passes_guards (request site_books ''GET'' ''/b/OL1M/x/edit'' ''?m=1'')"
    by (simp add: passes_guards_def request_def)
  show ?thesis
    using C1_redirect_decision [OF g decision_b_OL1M, of handler0]
    by (auto simp: request_def quote_def quote_char_def always_safe_def)
qed

text \<open>
  C1 as stated fails: for GET \<^verbatim>\<open>/l/foo/\<close> the three conditions hold of the readable path
  \<^verbatim>\<open>/l/foo\<close>, and the processor raises \<^verbatim>\<open>seeother\<close> to \<^verbatim>\<open>/languages/foo/\<close>, not a
  redirect to the readable path.
\<close>

theorem C1_counterexample:
  "decision_paths env0 (request empty_site ''GET'' ''/l/foo/'' []) = Inr (''/l/foo'', ''/l/foo'')
   \<and> ''/l/foo'' \<noteq> ctx_path (request empty_site ''GET'' ''/l/foo/'' [])
   \<and> ''/l/foo'' \<noteq> quote ''/'' (ctx_path (request empty_site ''GET'' ''/l/foo/'' []))
   \<and> ctx_method (request empty_site ''GET'' ''/l/foo/'' []) = ''GET''
   \<and> fst (call env0 handler0 (request empty_site ''GET'' ''/l/foo/'' []))
       = Seeother ''/languages/foo/''"
proof -
  have e1: "encode_url_path env0 ''/l/foo'' = Inr ''/l/foo''"
    by (simp add: url_defs)
  have d: "decision_paths env0 (request empty_site ''GET'' ''/l/foo/'' [])
           = Inr (''/l/foo'', ''/l/foo'')"
    by (simp add: decision_paths_def request_def get_readable_path_def match_misc
        strip_trailing_rstrip rstrip_def e1)
  have c: "fst (call env0 handler0 (request empty_site ''GET'' ''/l/foo/'' []))
       = Seeother ''/languages/foo/''"
    by (simp add: call_def request_def)
  show ?thesis using d c
    by (simp add: request_def quote_def quote_char_def always_safe_def)
qed

text \<open>
  C9. When the processor reaches the handler (no redirect is raised) and the handler
  returns: if the exclusion flag is set, which the two calls of \<^verbatim>\<open>get_readable_path\<close>
  do when \<^verbatim>\<open>is_exclusion\<close> flags the record they resolve, the processor sets the status
  \<^verbatim>\<open>404 Not Found\<close> and returns \<^verbatim>\<open>render.notfound\<close> of the real path, whatever the
  handler returned; if the flag is not set, it returns the output of the handler.
\<close>

theorem C9_exclusion_override:
  assumes "passes_guards c" and "decision_paths e c = Inr (real_path, readable_path)"
    and "readable_path = ctx_path c \<or> readable_path = quote ''/'' (ctx_path c)
         \<or> ctx_method c \<noteq> ''GET''"
    and "h (handler_ctx e c real_path readable_path) = Inr out"
  shows "call e h c =
     (if ctx_exclude c
         \<or> excluded (get_readable_path e (ctx_site c) (ctx_path c) patterns (ctx_encoding c))
         \<or> excluded (get_readable_path e (ctx_site c) (rstrip (CHR ''/'') (ctx_path c))
               patterns (ctx_encoding c))
      then (Returned (Notfound real_path),
            (handler_ctx e c real_path readable_path)\<lparr>ctx_status := ''404 Not Found''\<rparr>)
      else (Returned (Output out), handler_ctx e c real_path readable_path))"
proof -
  have n: "(readable_path \<noteq> ctx_path c \<and> readable_path \<noteq> quote ''/'' (ctx_path c)
            \<and> ctx_method c = ''GET'') = False"
    using assms(3) by blast
  show ?thesis
    unfolding call_decided [OF assms(1,2)] n using assms(4)
    by (simp add: exclude_after_resolution_def)
qed

theorem C9_exclusion_override_witness:
  "fst (call env_flag handler0 (request site_books ''POST'' ''/books/OL1M'' []))
   = Returned (Notfound ''/books/OL1M'')"
proof -
  let ?c = "request site_books ''POST'' ''/books/OL1M'' []"
  have g: "passes_guards ?c" by (simp add: passes_guards_def request_def)
  have q: "quote_plus ''A b'' = ''A+b''"
    by (simp add: quote_plus_def quote_def quote_char_def always_safe_def Let_def)
  have e1: "encode_url_path env_flag ''/books/OL1M'' = Inr ''/books/OL1M''"
    "encode_url_path env_flag ''/books/OL1M/A+b'' = Inr ''/books/OL1M/A%2Bb''"
    by (simp_all add: url_defs)
  have d: "decision_paths env_flag ?c = Inr (''/books/OL1M'', ''/books/OL1M/A%2Bb'')"
    by (simp add: decision_paths_def request_def resolve_books_OL1M q strip_trailing_rstrip
        rstrip_def e1 env_flag_def [THEN arg_cong, of urlsafe])
  have n: "''/books/OL1M/A%2Bb'' = ctx_path ?c
            \<or> ''/books/OL1M/A%2Bb'' = quote ''/'' (ctx_path ?c) \<or> ctx_method ?c \<noteq> ''GET''"
    by (simp add: request_def)
  have h: "handler0 (handler_ctx env_flag ?c ''/books/OL1M'' ''/books/OL1M/A%2Bb'')
           = Inr ''page of /books/OL1M''"
    by (simp add: handler0_def handler_ctx_def)
  show ?thesis
    using C9_exclusion_override [where h = handler0 and out = "''page of /books/OL1M''", OF g d n h]
    by (simp add: request_def resolve_books_OL1M env_flag_def)
qed

text \<open>
  C10, as amended. The readable path that the decision reads is resolved from the
  request path without its trailing slashes, has no trailing slash before the encoding,
  and is compared with the request path as it came. So for every GET request that passes
  the legacy redirects, whose path ends in a slash, whose paths \<^verbatim>\<open>encode_url_path\<close>
  encodes without an error, and whose encoded readable path differs from the request
  path and from the percent-encoded request path, the processor redirects to the
  readable path followed by the query string. A GET request for \<^verbatim>\<open>/\<close> is always
  redirected to the empty path followed by the query string.
\<close>

theorem C10_raw_path_comparison:
  "(passes_guards c \<and> suffix ''/'' (ctx_path c) \<and> ctx_method c = ''GET''
     \<and> encode_url_path e (strip_trailing (snd (paths (get_readable_path e (ctx_site c)
             (rstrip (CHR ''/'') (ctx_path c)) patterns (ctx_encoding c))))) = Inr readable_path
     \<and> encode_url_path e (fst (paths (get_readable_path e (ctx_site c)
             (rstrip (CHR ''/'') (ctx_path c)) patterns (ctx_encoding c)))) = Inr real_path
     \<and> readable_path \<noteq> ctx_path c \<and> readable_path \<noteq> quote ''/'' (ctx_path c)
    \<longrightarrow> fst (call e h c) = Redirect (readable_path @ ctx_query c))
   \<and> \<not> suffix ''/'' (strip_trailing rd)
   \<and> (ctx_path c' = ''/'' \<and> ctx_method c' = ''GET''
      \<longrightarrow> fst (call e h c') = Redirect (ctx_query c'))"
proof (intro conjI impI)
  assume a: "passes_guards c \<and> suffix ''/'' (ctx_path c) \<and> ctx_method c = ''GET''
     \<and> encode_url_path e (strip_trailing (snd (paths (get_readable_path e (ctx_site c)
             (rstrip (CHR ''/'') (ctx_path c)) patterns (ctx_encoding c))))) = Inr readable_path
     \<and> encode_url_path e (fst (paths (get_readable_path e (ctx_site c)
             (rstrip (CHR ''/'') (ctx_path c)) patterns (ctx_encoding c)))) = Inr real_path
     \<and> readable_path \<noteq> ctx_path c \<and> readable_path \<noteq> quote ''/'' (ctx_path c)"
  then have g: "passes_guards c" and d: "decision_paths e c = Inr (real_path, readable_path)"
    using decision_paths_intro [of e c readable_path real_path] by simp_all
  show "fst (call e h c) = Redirect (readable_path @ ctx_query c)"
    unfolding call_decided [OF g d] using a by simp
next
  show "\<not> suffix ''/'' (strip_trailing rd)"
    using rstrip_no_trailing [of "CHR ''/''" rd] by (simp add: strip_trailing_rstrip)
next
  assume "ctx_path c' = ''/'' \<and> ctx_method c' = ''GET''"
  then show "fst (call e h c') = Redirect (ctx_query c')"
    using call_root by blast
qed

theorem C10_raw_path_comparison_witness:
  "fst (call env0 handler0 (request site_books ''GET'' ''/books/OL1M/'' ''?x''))
     = Redirect ''/books/OL1M/A%2Bb?x''
   \<and> fst (call env0 handler0 (request empty_site ''GET'' ''/'' ''?x'')) = Redirect ''?x''"
proof -
  let ?c = "request site_books ''GET'' ''/books/OL1M/'' ''?x''"
  let ?c' = "request empty_site ''GET'' ''/'' ''?x''"
  have q: "quote_plus ''A b'' = ''A+b''"
    by (simp add: quote_plus_def quote_def quote_char_def always_safe_def Let_def)
  have r: "rstrip (CHR ''/'') ''/books/OL1M/'' = ''/books/OL1M''" by (simp add: rstrip_def)
  have e1: "encode_url_path env0 ''/books/OL1M'' = Inr ''/books/OL1M''"
    "encode_url_path env0 ''/books/OL1M/A+b'' = Inr ''/books/OL1M/A%2Bb''"
    by (simp_all add: url_defs)
  have h: "passes_guards ?c \<and> suffix ''/'' (ctx_path ?c) \<and> ctx_method ?c = ''GET''
     \<and> encode_url_path env0 (strip_trailing (snd (paths (get_readable_path env0 (ctx_site ?c)
             (rstrip (CHR ''/'') (ctx_path ?c)) patterns (ctx_encoding ?c))))) = Inr ''/books/OL1M/A%2Bb''
     \<and> encode_url_path env0 (fst (paths (get_readable_path env0 (ctx_site ?c)
             (rstrip (CHR ''/'') (ctx_path ?c)) patterns (ctx_encoding ?c)))) = Inr ''/books/OL1M''
     \<and> ''/books/OL1M/A%2Bb'' \<noteq> ctx_path ?c \<and> ''/books/OL1M/A%2Bb'' \<noteq> quote ''/'' (ctx_path ?c)"
    by (simp add: passes_guards_def request_def suffix_to_prefix r resolve_books_OL1M q
        strip_trailing_rstrip rstrip_def e1 env0_def [THEN arg_cong, of urlsafe]
        quote_def quote_char_def always_safe_def)
  have h': "ctx_path ?c' = ''/'' \<and> ctx_method ?c' = ''GET''" by (simp add: request_def)
  from C10_raw_path_comparison [of ?c env0 "''/books/OL1M/A%2Bb''" "''/books/OL1M''" handler0 "[]" ?c']
    h h'
  have "fst (call env0 handler0 ?c) = Redirect (''/books/OL1M/A%2Bb'' @ ctx_query ?c)"
    and "fst (call env0 handler0 ?c') = Redirect (ctx_query ?c')"
    by blast+
  then show ?thesis by (simp add: request_def)
qed

text \<open>
  C10 as stated fails. For GET \<^verbatim>\<open>//[/\<close> the path ends in a slash and the readable path
  \<^verbatim>\<open>//[\<close> differs from it, and \<^verbatim>\<open>encode_url_path\<close> fails with \<^verbatim>\<open>ValueError\<close>: no
  redirect is raised. For GET \<^verbatim>\<open>/b/OL1M/ /\<close> on a site whose record has the key
  \<^verbatim>\<open>/b/OL1M/ /?\<close>, the encoded readable path \<^verbatim>\<open>/b/OL1M/%20/\<close> differs from the
  request path and equals the percent-encoded request path: the handler runs.
\<close>

theorem C10_counterexample:
  "suffix ''/'' (ctx_path (request empty_site ''GET'' ''//[/'' []))
   \<and> paths (get_readable_path env0 empty_site (rstrip (CHR ''/'') ''//[/'') patterns None)
       = (''//['', ''//['')
   \<and> fst (call env0 handler0 (request empty_site ''GET'' ''//[/'' [])) = Error ValueError
   \<and> suffix ''/'' (ctx_path (request site_other ''GET'' ''/b/OL1M/ /'' []))
   \<and> decision_paths env0 (request site_other ''GET'' ''/b/OL1M/ /'' [])
       = Inr (''/b/OL1M/%20/'', ''/b/OL1M/%20/'')
   \<and> ''/b/OL1M/%20/'' \<noteq> ctx_path (request site_other ''GET'' ''/b/OL1M/ /'' [])
   \<and> fst (call env0 handler0 (request site_other ''GET'' ''/b/OL1M/ /'' []))
       = Returned (Output ''page of /b/OL1M/%20/'')"
proof -
  let ?c = "request empty_site ''GET'' ''//[/'' []"
  let ?d = "request site_other ''GET'' ''/b/OL1M/ /'' []"
  have r: "rstrip (CHR ''/'') ''//[/'' = ''//[''" "rstrip (CHR ''/'') ''/b/OL1M/ /'' = ''/b/OL1M/ ''"
    by (simp_all add: rstrip_def)
  have p1: "get_readable_path env0 empty_site ''//['' patterns None
            = \<lparr>paths = (''//['', ''//[''), excluded = False, requested = []\<rparr>"
    by (simp add: get_readable_path_def match_misc)
  have g1: "passes_guards ?c" by (simp add: passes_guards_def request_def)
  have d1: "decision_paths env0 ?c = Inl ValueError"
    by (simp add: decision_paths_def request_def r p1 strip_trailing_rstrip rstrip_def enc_bracket)
  have m2: "match patterns ''/b/OL1M/ ''
     = Some \<lparr>m_type = ''/type/edition'', m_property = ''title'', m_default = ''untitled'',
           m_prefix = ''/b/OL1M'', m_middle = '' '', m_suffix = []\<rparr>"
    by (simp add: eval_defs)
  have o2: "get_object site_other ''/b/OL1M'' = (Some other_thing, [''/b/OL1M''])"
    by (simp add: get_object_first_hit fallback_candidates_def site_other_def Let_def)
  have p2: "paths (get_readable_path env0 site_other ''/b/OL1M/ '' patterns None)
            = (''/b/OL1M/ /?'', ''/b/OL1M/ /?'')"
    by (simp add: get_readable_path_def m2 is_structured_def suffix_to_prefix o2
        other_thing_def Let_def)
  have g2: "passes_guards ?d" by (simp add: passes_guards_def request_def)
  have d2: "decision_paths env0 ?d = Inr (''/b/OL1M/%20/'', ''/b/OL1M/%20/'')"
    by (simp add: decision_paths_def request_def r p2 strip_trailing_rstrip rstrip_def enc_weird)
  have c2: "fst (call env0 handler0 ?d) = Returned (Output ''page of /b/OL1M/%20/'')"
    unfolding call_decided [OF g2 d2]
    by (simp add: request_def quote_def quote_char_def always_safe_def hex_byte_def utf8_def
        handler0_def handler_ctx_def exclude_after_resolution_def get_readable_path_def
        Let_def r m2 is_structured_def suffix_to_prefix o2 env0_def other_thing_def
        case_prod_unfold eval_defs)
  show ?thesis
    using call_error [OF g1 d1, of handler0] d2 c2 p1
    by (simp add: request_def r suffix_to_prefix)
qed


text \<open>
  C8 as stated (for every identifier path that a rule matches, the path with one trailing
  slash and the path without it resolve to the same pair) does not hold of
  \<^verbatim>\<open>get_readable_path\<close>: with an encoding override the path goes through
  \<^verbatim>\<open>os.path.splitext\<close> with its slash and the lookup of the key with the slash finds
  nothing; and an identifier path with a structured extension leaves the structured
  branch when a slash follows it.
\<close>

theorem C8_counterexample:
  "match patterns ''/books/OL1M'' \<noteq> None
   \<and> paths (get_readable_path env0 site_books ''/books/OL1M/'' patterns (Some ''json''))
       = (''/books/OL1M/'', ''/books/OL1M/'')
   \<and> paths (get_readable_path env0 site_books ''/books/OL1M'' patterns (Some ''json''))
       = (''/books/OL1M'', ''/books/OL1M'')
   \<and> match patterns ''/books/ia:foo.json'' \<noteq> None
   \<and> paths (get_readable_path env0 site_ia ''/books/ia:foo.json/'' patterns None)
       = (''/books/ia:foo.json'', ''/books/ia:foo.json'')
   \<and> paths (get_readable_path env0 site_ia ''/books/ia:foo.json'' patterns None)
       = (''/books/OL1M.json'', ''/books/OL1M.json'')"
proof -
  have x1: "splitext ''/books/OL1M/'' = (''/books/OL1M/'', [])" 
    by (simp add: splitext_def rfind_def Let_def)
  have x2: "splitext ''/books/OL1M'' = (''/books/OL1M'', [])" 
    by (simp add: splitext_def rfind_def Let_def)
  have x3: "splitext ''/books/ia:foo.json'' = (''/books/ia:foo'', ''.json'')"
    using splitext_structured [of "''.json''" "CHR ''o''" "''/books/ia:fo''"] by simp
  have g1: "fst (get_object site_books ''/books/OL1M/'') = None"
    by (simp add: get_object_first_hit fallback_candidates_def site_books_def Let_def
        basename_candidates_def legacy_candidates_def basename_of_def is_olid_def)
  have g2: "fst (get_object site_books ''/books/OL1M'') = Some edition1"
    by (simp add: get_object_first_hit fallback_candidates_def site_books_def Let_def)
  have g3: "fst (get_object site_ia ''/books/ia:foo'') = Some edition1"
    by (simp add: get_object_first_hit fallback_candidates_def site_ia_def Let_def)
  have g4: "fst (get_object site_ia ''/books/ia:foo.json'') = None"
    by (simp add: get_object_first_hit fallback_candidates_def site_ia_def Let_def
        basename_candidates_def legacy_candidates_def basename_of_def is_olid_def)
  have m1: "match patterns ''/books/OL1M/''
     = Some \<lparr>m_type = ''/type/edition'', m_property = ''title'', m_default = ''untitled'',
           m_prefix = ''/books/OL1M'', m_middle = [], m_suffix = []\<rparr>"
    by (simp add: eval_defs)
  have m3: "match patterns ''/books/ia:foo.json''
     = Some \<lparr>m_type = ''/type/edition'', m_property = ''title'', m_default = ''untitled'',
           m_prefix = ''/books/ia:foo.json'', m_middle = [], m_suffix = []\<rparr>"
    by (simp add: eval_defs)
  have m4: "match patterns ''/books/ia:foo.json/''
     = Some \<lparr>m_type = ''/type/edition'', m_property = ''title'', m_default = ''untitled'',
           m_prefix = ''/books/ia:foo.json'', m_middle = [], m_suffix = []\<rparr>"
    by (simp add: eval_defs)
  show ?thesis
    using g1 g2 g3 g4
    by (simp add: get_readable_path_def m1 match_books_OL1M m3 m4 x1 x2 x3 case_prod_unfold
        is_structured_def suffix_to_prefix edition1_def Let_def)
qed

text \<open>
  C8, as amended. For every path that a rule matches in full and that has no structured
  extension, with no encoding override, \<^verbatim>\<open>get_readable_path\<close> returns for the path
  followed by one slash what it returns for the path (the pair, the exclusion flag and the
  requested keys). In the processor, whatever the encoding, the two requests are resolved
  alike, since the trailing slashes are stripped before the resolution that decides.
\<close>

theorem C8_trailing_slash:
  assumes "match patterns p = Some m" and "m_prefix m = p" and "\<not> is_structured p"
  shows "get_readable_path e st (p @ ''/'') patterns None
         = get_readable_path e st p patterns None
     \<and> decision_paths e (c\<lparr>ctx_path := p @ ''/''\<rparr>) = decision_paths e (c\<lparr>ctx_path := p\<rparr>)"
  using assms match_patterns_append_slash [OF assms(1,2)]
  by (simp add: get_readable_path_def not_structured_slash decision_paths_def
      rstrip_append_slash)

theorem C8_trailing_slash_witness:
  "get_readable_path env0 site_books ''/books/OL1M/'' patterns None
   = \<lparr>paths = (''/books/OL1M'', ''/books/OL1M/A+b''), excluded = False,
      requested = [''/books/OL1M'']\<rparr>"
proof -
  have s: "\<not> is_structured ''/books/OL1M''"
    by (simp add: is_structured_def suffix_to_prefix)
  have q: "quote_plus ''A b'' = ''A+b''"
    using quote_plus_A_b by (simp add: strip_def is_space_def)
  from C8_trailing_slash [OF match_books_OL1M _ s, of env0 site_books]
  show ?thesis by (simp add: resolve_books_OL1M env0_def q)
qed
end
